theory Spec2Isabelle
  imports Main "HOL-Library.Word" "HOL-Library.Signed_Division"
begin

section \<open>The session subsystem of dragonfly (session.go)\<close>

text \<open>
  The embedding follows \<^verbatim>\<open>src/dragonfly/session/session.go\<close>. A \<^verbatim>\<open>*Session\<close> is an
  address into a store (\<open>heap\<close>), because the code compares sessions by pointer
  (\<^verbatim>\<open>session != s\<close>, \<^verbatim>\<open>s == Nop\<close>) and mutates them through the package-level slice
  \<^verbatim>\<open>sessions\<close>. Calls into the external collaborators (connection, world, loader,
  controllable, chat, logger, the stop callback) are recorded, in program order, in the
  list \<open>effects\<close>; values they return (a read packet, a load error) are inputs of the
  model. A function body runs atomically: the mutexes are not modelled. The fields
  \<^verbatim>\<open>log\<close>, \<^verbatim>\<open>cmdOrigin\<close> and \<^verbatim>\<open>chunkBuf\<close> carry no behaviour of this file and are left out.
  A nil receiver is modelled where Go itself panics (a method call on a nil interface, a
  type assertion on a nil interface value); what an external method does with a nil
  pointer receiver is that collaborator's business and is recorded as a call.
\<close>

subsection \<open>Data\<close>

type_synonym sid = nat
type_synonym entity = nat
type_synonym connId = nat
type_synonym worldId = nat
type_synonym callback = nat
type_synonym pdata = "nat list"
type_synonym err = string

text \<open>The packet kinds \<^verbatim>\<open>handlePacket\<close> distinguishes; any other kind carries its packet id.\<close>

datatype packet =
    Text pdata
  | CommandRequest pdata
  | MovePlayer pdata
  | RequestChunkRadius pdata
  | BossEvent pdata
  | OtherPacket nat pdata

datatype panic =
    NilDereference
  | NilInterfaceConversion
  | MakesliceCapOutOfRange int

datatype level = DebugLevel | ErrorLevel

datatype logmsg =
    UnhandledPacket packet "connId option"
  | PacketError "connId option" err
  | ChunkError err

datatype effect =
    ControllableClose entity
  | ConnClose "connId option"
  | ConnWritePacket "connId option" packet
  | LoaderClose sid
  | LoaderLoad sid nat
  | WorldAddEntity "worldId option" "entity option"
  | WorldRemoveEntity "worldId option" entity
  | ChatPrintln "connId option" string
  | SendAvailableCommands sid
  | GoHandlePackets sid
  | GoSendChunks sid
  | ChanSend sid
  | TickerStop sid
  | Log level logmsg
  | OnStop callback entity

record loader =
  lradius :: "64 word"
  lworld :: "worldId option"
  lviewer :: sid

text \<open>
  The struct \<^verbatim>\<open>Session\<close>. Go's \<^verbatim>\<open>int\<close> is taken as 64 bits wide. The field \<open>playerList\<close> is
  not a field of the struct: see \<open>addToPlayerList\<close> below.
\<close>

record session =
  c :: "entity option"
  world :: "worldId option"
  conn :: "connId option"
  scoreboardObj :: "string option"
  chunkLoader :: "loader option"
  chunkRadius :: "32 word"
  maxChunkRadius :: "32 word"
  currentEntityRuntimeID :: "64 word"
  entityRuntimeIDs :: "entity \<rightharpoonup> 64 word"
  onStop :: "callback option"
  playerList :: "sid list"

text \<open>The package-level variables, the store of sessions and the calls made so far.\<close>

record global =
  sessions :: "sid list"
  heap :: "sid \<Rightarrow> session"
  nextAddr :: sid
  effects :: "effect list"

text \<open>
  The handlers \<^verbatim>\<open>handleText\<close>, \<^verbatim>\<open>handleCommandRequest\<close>, \<^verbatim>\<open>handleMovePlayer\<close> and
  \<^verbatim>\<open>handleRequestChunkRadius\<close> are defined in other files of the package; they are
  parameters of the model, free to change the state and to return an error.
\<close>

record handlers =
  handleText :: "sid \<Rightarrow> pdata \<Rightarrow> global \<Rightarrow> err option \<times> global"
  handleCommandRequest :: "sid \<Rightarrow> pdata \<Rightarrow> global \<Rightarrow> err option \<times> global"
  handleMovePlayer :: "sid \<Rightarrow> pdata \<Rightarrow> global \<Rightarrow> err option \<times> global"
  handleRequestChunkRadius :: "sid \<Rightarrow> pdata \<Rightarrow> global \<Rightarrow> err option \<times> global"

subsection \<open>Construction\<close>

definition emit :: "effect \<Rightarrow> global \<Rightarrow> global" where
  "emit e g = g\<lparr>effects := effects g @ [e]\<rparr>"

definition updSession :: "sid \<Rightarrow> (session \<Rightarrow> session) \<Rightarrow> global \<Rightarrow> global" where
  "updSession s f g = g\<lparr>heap := (heap g)(s := f (heap g s))\<rparr>"

definition selfEntityRuntimeID :: "64 word" where
  "selfEntityRuntimeID = 1"

text \<open>The value \<^verbatim>\<open>Session{}\<close>: every field zero. \<^verbatim>\<open>Nop\<close> points to one, at address 0.\<close>

definition zeroSession :: session where
  "zeroSession = \<lparr>c = None, world = None, conn = None, scoreboardObj = None,
     chunkLoader = None, chunkRadius = 0, maxChunkRadius = 0, currentEntityRuntimeID = 0,
     entityRuntimeIDs = Map.empty, onStop = None, playerList = []\<rparr>"

definition Nop :: sid where
  "Nop = 0"

definition initial :: global where
  "initial = \<lparr>sessions = [], heap = (\<lambda>_. zeroSession), nextAddr = 1, effects = []\<rparr>"

text \<open>
  \<^verbatim>\<open>New\<close>. \<^verbatim>\<open>maxChunkRadius / 2\<close> truncates towards zero; \<^verbatim>\<open>int32(...)\<close> keeps the low 32
  bits. The controllable, the connection and the world passed to \<^verbatim>\<open>New\<close> are not nil. The
  new session gets the next free address.
\<close>

definition halfRadius :: "64 word \<Rightarrow> 64 word" where
  "halfRadius r = word_of_int (sint r sdiv 2)"

definition newSession :: "sid \<Rightarrow> entity \<Rightarrow> connId \<Rightarrow> worldId \<Rightarrow> 64 word \<Rightarrow> session" where
  "newSession s ctrl cn w maxRadius =
     \<lparr>c = Some ctrl, world = Some w, conn = Some cn, scoreboardObj = Some [],
      chunkLoader = Some \<lparr>lradius = halfRadius maxRadius, lworld = Some w, lviewer = s\<rparr>,
      chunkRadius = ucast (halfRadius maxRadius), maxChunkRadius = ucast maxRadius,
      currentEntityRuntimeID = 1,
      entityRuntimeIDs = [ctrl \<mapsto> selfEntityRuntimeID],
      onStop = None, playerList = []\<rparr>"

definition New :: "entity \<Rightarrow> connId \<Rightarrow> worldId \<Rightarrow> 64 word \<Rightarrow> global \<Rightarrow> sid \<times> global" where
  "New ctrl cn w maxRadius g =
     (let s = nextAddr g
      in (s, g\<lparr>heap := (heap g)(s := newSession s ctrl cn w maxRadius), nextAddr := Suc s\<rparr>))"

subsection \<open>The presence lists\<close>

text \<open>
  Modelled from the spec: \<^verbatim>\<open>addToPlayerList\<close> is called by \<^verbatim>\<open>initPlayerList\<close> but
  defined in another file of the package. The spec gives every session a presence list of
  the sessions it has been told about: an introduction puts the other session on the
  receiver's list, and a session already listed is not listed twice.
\<close>

definition addToPlayerList :: "sid \<Rightarrow> sid \<Rightarrow> global \<Rightarrow> global" where
  "addToPlayerList recv x g =
     updSession recv (\<lambda>ss. ss\<lparr>playerList :=
        (if x \<in> set (playerList ss) then playerList ss else playerList ss @ [x])\<rparr>) g"

text \<open>
  Modelled from the spec: \<^verbatim>\<open>removeFromPlayerList\<close> is called by \<^verbatim>\<open>closePlayerList\<close> but
  defined in another file of the package. A removal takes the session off the receiver's
  presence list; removing an absent session is not an error.
\<close>

definition removeFromPlayerList :: "sid \<Rightarrow> sid \<Rightarrow> global \<Rightarrow> global" where
  "removeFromPlayerList recv x g =
     updSession recv (\<lambda>ss. ss\<lparr>playerList := removeAll x (playerList ss)\<rparr>) g"

text \<open>The loop of \<^verbatim>\<open>initPlayerList\<close> over the slice, after the append.\<close>

fun introduceAll :: "sid \<Rightarrow> sid list \<Rightarrow> global \<Rightarrow> global" where
  "introduceAll s [] g = g"
| "introduceAll s (session # rest) g =
     introduceAll s rest (addToPlayerList s session (addToPlayerList session s g))"

definition initPlayerList :: "sid \<Rightarrow> global \<Rightarrow> global" where
  "initPlayerList s g =
     (let g1 = g\<lparr>sessions := sessions g @ [s]\<rparr>
      in introduceAll s (sessions g1) g1)"

text \<open>
  The loop of \<^verbatim>\<open>closePlayerList\<close>: \<open>n\<close> is the slice being built. Every session of the
  slice, the departing one included, is asked to remove the departing one.
\<close>

fun closeLoop :: "sid \<Rightarrow> sid list \<Rightarrow> sid list \<Rightarrow> global \<Rightarrow> sid list \<times> global" where
  "closeLoop s [] n g = (n, g)"
| "closeLoop s (session # rest) n g =
     closeLoop s rest (if session \<noteq> s then n @ [session] else n)
       (removeFromPlayerList session s g)"

text \<open>
  \<^verbatim>\<open>make([]*Session, 0, len(sessions)-1)\<close> panics at run time when the capacity is
  negative, before the loop and with the mutex held.
\<close>

definition closePlayerList :: "sid \<Rightarrow> global \<Rightarrow> panic + global" where
  "closePlayerList s g =
     (let cap = int (length (sessions g)) - 1
      in if cap < 0 then Inl (MakesliceCapOutOfRange cap)
         else (case closeLoop s (sessions g) [] g of
                 (n, g') \<Rightarrow> Inr (g'\<lparr>sessions := n\<rparr>)))"

subsection \<open>The entity runtime IDs\<close>

text \<open>
  \<^verbatim>\<open>Close\<close> replaces the map by an empty one and leaves the counter as it is (lines
  113 to 115).
\<close>

definition Reset :: "session \<Rightarrow> session" where
  "Reset ss = ss\<lparr>entityRuntimeIDs := Map.empty\<rparr>"








subsection \<open>Lifecycle\<close>

definition Start :: "sid \<Rightarrow> callback option \<Rightarrow> global \<Rightarrow> global" where
  "Start s cb g =
     (let g1 = updSession s (\<lambda>ss. ss\<lparr>onStop := cb\<rparr>) g;
          g2 = initPlayerList s g1;
          g3 = emit (WorldAddEntity (world (heap g2 s)) (c (heap g2 s))) g2;
          g4 = emit (SendAvailableCommands s) g3;
          g5 = emit (GoHandlePackets s) g4
      in emit (ChatPrintln (conn (heap g5 s)) ''has joined the game'') g5)"

text \<open>
  \<^verbatim>\<open>Close\<close>. The stop callback is Go code of the caller; its invocation is recorded as
  the effect \<open>OnStop\<close>. The function always returns a nil error, so the model returns
  the state, or the panic that cut the call short.
\<close>

definition Close :: "sid \<Rightarrow> global \<Rightarrow> panic + global" where
  "Close s g =
     (case c (heap g s) of
        None \<Rightarrow> Inl NilDereference
      | Some ctrl \<Rightarrow>
          (let g1 = emit (ControllableClose ctrl) g;
               g2 = emit (ConnClose (conn (heap g1 s))) g1
           in case chunkLoader (heap g2 s) of
                None \<Rightarrow> Inl NilInterfaceConversion
              | Some l \<Rightarrow>
                  (let g3 = emit (LoaderClose s) g2;
                       g4 = emit (WorldRemoveEntity (world (heap g3 s)) ctrl) g3;
                       g5 = emit (ChatPrintln (conn (heap g4 s)) ''has left the game'') g4
                   in case closePlayerList s g5 of
                        Inl p \<Rightarrow> Inl p
                      | Inr g6 \<Rightarrow>
                          (let g7 = updSession s Reset g6
                           in case onStop (heap g7 s) of
                                None \<Rightarrow> Inr g7
                              | Some f \<Rightarrow>
                                  Inr (updSession s (\<lambda>ss. ss\<lparr>onStop := None\<rparr>)
                                         (emit (OnStop f ctrl) g7))))))"

definition RequestClose :: "sid \<Rightarrow> global \<Rightarrow> global" where
  "RequestClose s g = emit (ConnClose (conn (heap g s))) g"

subsection \<open>Packets\<close>

fun handlePacket :: "handlers \<Rightarrow> sid \<Rightarrow> packet \<Rightarrow> global \<Rightarrow> err option \<times> global" where
  "handlePacket hs s (Text d) g = handleText hs s d g"
| "handlePacket hs s (CommandRequest d) g = handleCommandRequest hs s d g"
| "handlePacket hs s (MovePlayer d) g = handleMovePlayer hs s d g"
| "handlePacket hs s (RequestChunkRadius d) g = handleRequestChunkRadius hs s d g"
| "handlePacket hs s (BossEvent d) g = (None, g)"
| "handlePacket hs s (OtherPacket k d) g =
     (None, emit (Log DebugLevel (UnhandledPacket (OtherPacket k d) (conn (heap g s)))) g)"

text \<open>
  \<^verbatim>\<open>writePacket\<close>. The value \<open>wres\<close> is what \<^verbatim>\<open>conn.WritePacket\<close> returns; the code assigns
  it to the blank identifier.
\<close>

definition writePacket :: "sid \<Rightarrow> packet \<Rightarrow> err option \<Rightarrow> global \<Rightarrow> global" where
  "writePacket s pk wres g =
     (if s = Nop then g else emit (ConnWritePacket (conn (heap g s)) pk) g)"

text \<open>Sessions joining the directory one after the other.\<close>

fun joinAll :: "sid list \<Rightarrow> global \<Rightarrow> global" where
  "joinAll [] g = g"
| "joinAll (x # xs) g = joinAll xs (initPlayerList x g)"

subsection \<open>The read loop\<close>

text \<open>
  What \<^verbatim>\<open>conn.ReadPacket\<close> returns is an input. One iteration of the loop of
  \<^verbatim>\<open>handlePackets\<close> yields whether the function returns, and the state.
\<close>

datatype readResult = ReadError err | ReadPacket packet

definition readStep :: "handlers \<Rightarrow> sid \<Rightarrow> readResult \<Rightarrow> global \<Rightarrow> bool \<times> global" where
  "readStep hs s r g =
     (case r of
        ReadError e \<Rightarrow> (True, g)
      | ReadPacket pk \<Rightarrow>
          (case handlePacket hs s pk g of
             (None, g') \<Rightarrow> (False, g')
           | (Some e, g') \<Rightarrow>
               (True, emit (Log ErrorLevel (PacketError (conn (heap g' s)) e)) g')))"

text \<open>
  The loop over the packets that arrive. When the list is used up and the loop has not
  returned, it is blocked in \<^verbatim>\<open>ReadPacket\<close>.
\<close>

fun readLoop :: "handlers \<Rightarrow> sid \<Rightarrow> readResult list \<Rightarrow> global \<Rightarrow> bool \<times> global" where
  "readLoop hs s [] g = (False, g)"
| "readLoop hs s (r # rs) g =
     (case readStep hs s r g of
        (True, g') \<Rightarrow> (True, g')
      | (False, g') \<Rightarrow> readLoop hs s rs g')"

text \<open>
  The deferred function of \<^verbatim>\<open>handlePackets\<close>: the send on the unbuffered channel, then
  \<^verbatim>\<open>Close\<close>. In this sequential reading the scheduler takes the value; the interleaving
  with the scheduler is the transition system below.
\<close>

definition deferred :: "sid \<Rightarrow> global \<Rightarrow> panic + global" where
  "deferred s g = Close s (emit (ChanSend s) g)"

datatype outcome = Blocked global | Returned "panic + global"

definition handlePackets :: "handlers \<Rightarrow> sid \<Rightarrow> readResult list \<Rightarrow> global \<Rightarrow> outcome" where
  "handlePackets hs s reads g =
     (case readLoop hs s reads (emit (GoSendChunks s) g) of
        (False, g') \<Rightarrow> Blocked g'
      | (True, g') \<Rightarrow> Returned (deferred s g'))"

subsection \<open>The chunk scheduler\<close>

text \<open>
  The ticker case of the \<^verbatim>\<open>select\<close> in \<^verbatim>\<open>sendChunks\<close>; \<open>r\<close> is what \<^verbatim>\<open>Load(4)\<close> returns.
\<close>

definition loadTick :: "sid \<Rightarrow> err option \<Rightarrow> global \<Rightarrow> panic + global" where
  "loadTick s r g =
     (case chunkLoader (heap g s) of
        None \<Rightarrow> Inl NilInterfaceConversion
      | Some l \<Rightarrow>
          (let g1 = emit (LoaderLoad s 4) g
           in case r of
                None \<Rightarrow> Inr g1
              | Some e \<Rightarrow> Inr (emit (Log ErrorLevel (ChunkError e)) g1)))"

datatype tickEvent = Tick "err option" | CloseChan

datatype schedOutcome = Waiting global | Stopped global | Crashed panic

fun sendChunks :: "sid \<Rightarrow> tickEvent list \<Rightarrow> global \<Rightarrow> schedOutcome" where
  "sendChunks s [] g = Waiting g"
| "sendChunks s (Tick r # es) g =
     (case loadTick s r g of
        Inl p \<Rightarrow> Crashed p
      | Inr g' \<Rightarrow> sendChunks s es g')"
| "sendChunks s (CloseChan # es) g = Stopped (emit (TickerStop s) g)"

subsection \<open>The two goroutines of a session\<close>

text \<open>
  The read loop and the scheduler as one transition system. The reader is in its loop,
  or in the deferred function waiting to send on the channel, or past the send and about
  to call \<^verbatim>\<open>Close\<close>, or done. The scheduler is at its \<^verbatim>\<open>select\<close> or has returned. The channel
  is unbuffered: the send and the receive are one joint step, enabled when the reader is
  at the send and the scheduler at the \<^verbatim>\<open>select\<close>. A panic in either goroutine ends the
  process.
\<close>

datatype rpc = Reading | Signalling | Closing | Closed

datatype spc = Selecting | SchedReturned

record config =
  reader :: rpc
  sched :: spc
  crashed :: "panic option"
  st :: global

datatype action = ARead readResult | ATick "err option" | ARendezvous | AClose

definition fire :: "handlers \<Rightarrow> sid \<Rightarrow> action \<Rightarrow> config \<Rightarrow> config option" where
  "fire hs s a cf =
     (if crashed cf \<noteq> None then None
      else case a of
        ARead r \<Rightarrow>
          (if reader cf = Reading
           then (case readStep hs s r (st cf) of
                   (stop, g') \<Rightarrow>
                     Some (cf\<lparr>reader := (if stop then Signalling else Reading), st := g'\<rparr>))
           else None)
      | ATick r \<Rightarrow>
          (if sched cf = Selecting
           then (case loadTick s r (st cf) of
                   Inl p \<Rightarrow> Some (cf\<lparr>crashed := Some p\<rparr>)
                 | Inr g' \<Rightarrow> Some (cf\<lparr>st := g'\<rparr>))
           else None)
      | ARendezvous \<Rightarrow>
          (if reader cf = Signalling \<and> sched cf = Selecting
           then Some (cf\<lparr>reader := Closing, sched := SchedReturned,
                         st := emit (TickerStop s) (emit (ChanSend s) (st cf))\<rparr>)
           else None)
      | AClose \<Rightarrow>
          (if reader cf = Closing
           then (case Close s (st cf) of
                   Inl p \<Rightarrow> Some (cf\<lparr>crashed := Some p\<rparr>)
                 | Inr g' \<Rightarrow> Some (cf\<lparr>reader := Closed, st := g'\<rparr>))
           else None))"

fun exec :: "handlers \<Rightarrow> sid \<Rightarrow> action list \<Rightarrow> config \<Rightarrow> config option" where
  "exec hs s [] cf = Some cf"
| "exec hs s (a # as) cf =
     (case fire hs s a cf of
        None \<Rightarrow> None
      | Some cf' \<Rightarrow> exec hs s as cf')"

text \<open>The state right after \<^verbatim>\<open>go s.sendChunks(c)\<close>.\<close>

definition startConfig :: "sid \<Rightarrow> global \<Rightarrow> config" where
  "startConfig s g =
     \<lparr>reader = Reading, sched = Selecting, crashed = None, st = emit (GoSendChunks s) g\<rparr>"

subsection \<open>Auxiliary notions and example inputs\<close>


text \<open>
  Handlers for the examples: a movement update with an empty payload is invalid, every
  other message is accepted, and no handler changes the state.
\<close>

definition sampleHandlers :: handlers where
  "sampleHandlers =
     \<lparr>handleText = (\<lambda>s d g. (None, g)),
      handleCommandRequest = (\<lambda>s d g. (None, g)),
      handleMovePlayer = (\<lambda>s d g. (if d = [] then Some ''invalid position'' else None, g)),
      handleRequestChunkRadius = (\<lambda>s d g. (None, g))\<rparr>"

text \<open>
  Handlers for the examples of the read loop: each of the four rejects an empty payload
  with a message of its own and accepts every other payload; none changes the state.
\<close>

definition strictHandlers :: handlers where
  "strictHandlers =
     \<lparr>handleText = (\<lambda>s d g. (if d = [] then Some ''bad text'' else None, g)),
      handleCommandRequest = (\<lambda>s d g. (if d = [] then Some ''bad command'' else None, g)),
      handleMovePlayer = (\<lambda>s d g. (if d = [] then Some ''bad position'' else None, g)),
      handleRequestChunkRadius = (\<lambda>s d g. (if d = [] then Some ''bad radius'' else None, g))\<rparr>"

text \<open>
  Example states: a session made by \<^verbatim>\<open>New\<close> on a fresh process (at address 1, controlling
  entity 7) and not started; the same session started with stop callback 5; that state
  with a second session (at address 2, controlling entity 8) made and started with stop
  callback 6; three sessions made by \<^verbatim>\<open>New\<close>, none started.
\<close>

definition created :: global where
  "created = snd (New 7 3 2 16 initial)"

definition started :: global where
  "started = Start 1 (Some 5) created"

definition twoStarted :: global where
  "twoStarted = Start 2 (Some 6) (snd (New 8 4 2 16 started))"

definition threeCreated :: global where
  "threeCreated = snd (New 9 5 2 16 (snd (New 8 4 2 16 (snd (New 7 3 2 16 initial)))))"

section \<open>Properties\<close>

lemmas model_defs =
  New_def newSession_def Start_def Close_def closePlayerList_def initPlayerList_def
  addToPlayerList_def removeFromPlayerList_def updSession_def emit_def initial_def
  zeroSession_def Reset_def selfEntityRuntimeID_def created_def started_def Let_def

subsection \<open>Dispatch and send\<close>

text \<open>
  C7: a message of a kind other than the five that \<^verbatim>\<open>handlePacket\<close> names yields no error;
  it is logged at debug level and the state is otherwise unchanged. The ignorable kind
  (\<^verbatim>\<open>BossEvent\<close>) yields no error and changes nothing, the log included.
\<close>

theorem handlePacket_unhandled_no_error:
  "handlePacket hs s (OtherPacket k d) g =
      (None, emit (Log DebugLevel (UnhandledPacket (OtherPacket k d) (conn (heap g s)))) g)
   \<and> handlePacket hs s (BossEvent d') g = (None, g)"
  by simp

theorem handlePacket_unhandled_no_error_witness:
  "handlePacket sampleHandlers 1 (OtherPacket 99 [1, 2]) started =
      (None, emit (Log DebugLevel (UnhandledPacket (OtherPacket 99 [1, 2]) (Some 3))) started)
   \<and> handlePacket sampleHandlers 1 (BossEvent [4]) started = (None, started)"
proof -
  have "conn (heap started 1) = Some 3" by (simp add: model_defs)
  with handlePacket_unhandled_no_error [of sampleHandlers 1 99 "[1, 2]" started "[4]"]
  show ?thesis by simp
qed

text \<open>
  C9: \<^verbatim>\<open>writePacket\<close> on \<^verbatim>\<open>Nop\<close> leaves everything as it is and makes no call on a
  connection; on any other session it makes the one call \<^verbatim>\<open>conn.WritePacket\<close>. Whatever
  that call returns, the outcome is the same: the error goes nowhere, and the function
  has no result through which it could.
\<close>

theorem writePacket_guarded:
  "writePacket Nop pk wres g = g
   \<and> (s \<noteq> Nop \<longrightarrow> writePacket s pk wres g = emit (ConnWritePacket (conn (heap g s)) pk) g)
   \<and> writePacket s pk wres g = writePacket s pk None g"
  by (simp add: writePacket_def)

theorem writePacket_guarded_witness:
  "writePacket Nop (Text [1]) (Some ''broken pipe'') started = started
   \<and> (1::nat) \<noteq> Nop
   \<and> writePacket 1 (Text [1]) (Some ''broken pipe'') started =
        emit (ConnWritePacket (Some 3) (Text [1])) started
   \<and> writePacket 1 (Text [1]) (Some ''broken pipe'') started =
        writePacket 1 (Text [1]) None started"
proof -
  have n: "(1::nat) \<noteq> Nop" by (simp add: Nop_def)
  have k: "conn (heap started 1) = Some 3" by (simp add: model_defs)
  note w = writePacket_guarded [of "Text [1]" "Some ''broken pipe''" started 1]
  from w have a: "writePacket Nop (Text [1]) (Some ''broken pipe'') started = started"
    by (rule conjunct1)
  from w n have b: "writePacket 1 (Text [1]) (Some ''broken pipe'') started =
        emit (ConnWritePacket (conn (heap started 1)) (Text [1])) started"
    by blast
  from w have d: "writePacket 1 (Text [1]) (Some ''broken pipe'') started =
        writePacket 1 (Text [1]) None started"
    by blast
  from a n b d show ?thesis unfolding k by blast
qed

subsection \<open>The presence directory\<close>

lemma sessions_addToPlayerList: "sessions (addToPlayerList r x g) = sessions g"
  by (simp add: addToPlayerList_def updSession_def)

lemma set_playerList_add:
  "set (playerList (heap (addToPlayerList r x g) y)) =
     set (playerList (heap g y)) \<union> (if y = r then {x} else {})"
  by (auto simp: addToPlayerList_def updSession_def)

lemma distinct_playerList_add:
  "distinct (playerList (heap (addToPlayerList r x g) y)) = distinct (playerList (heap g y))"
  by (auto simp: addToPlayerList_def updSession_def)

lemma sessions_introduceAll: "sessions (introduceAll s L g) = sessions g"
  by (induction L arbitrary: g) (simp_all add: sessions_addToPlayerList)

lemma set_playerList_introduceAll:
  "set (playerList (heap (introduceAll s L g) y)) =
     set (playerList (heap g y)) \<union> (if y = s then set L else {}) \<union> (if y \<in> set L then {s} else {})"
  by (induction L arbitrary: g) (auto simp: set_playerList_add)

lemma distinct_playerList_introduceAll:
  "distinct (playerList (heap (introduceAll s L g) y)) = distinct (playerList (heap g y))"
  by (induction L arbitrary: g) (simp_all add: distinct_playerList_add)

lemma sessions_initPlayerList: "sessions (initPlayerList s g) = sessions g @ [s]"
  by (simp add: initPlayerList_def Let_def sessions_introduceAll)

lemma set_playerList_initPlayerList:
  "set (playerList (heap (initPlayerList s g) y)) =
     set (playerList (heap g y)) \<union> (if y = s then insert s (set (sessions g)) else {})
       \<union> (if y = s \<or> y \<in> set (sessions g) then {s} else {})"
  by (auto simp: initPlayerList_def Let_def set_playerList_introduceAll)

lemma distinct_playerList_initPlayerList:
  "distinct (playerList (heap (initPlayerList s g) y)) = distinct (playerList (heap g y))"
  by (simp add: initPlayerList_def Let_def distinct_playerList_introduceAll)

lemma joinAll_mesh:
  "distinct (sessions g @ xs) \<Longrightarrow>
   \<forall>x\<in>set (sessions g). set (playerList (heap g x)) = set (sessions g) \<and> distinct (playerList (heap g x)) \<Longrightarrow>
   \<forall>x\<in>set xs. playerList (heap g x) = [] \<Longrightarrow>
   sessions (joinAll xs g) = sessions g @ xs \<and>
   (\<forall>x\<in>set (sessions g @ xs). set (playerList (heap (joinAll xs g) x)) = set (sessions g @ xs)
        \<and> distinct (playerList (heap (joinAll xs g) x)))"
proof (induction xs arbitrary: g)
  case Nil
  then show ?case by simp
next
  case (Cons a xs)
  let ?g = "initPlayerList a g"
  have s: "sessions ?g = sessions g @ [a]" by (rule sessions_initPlayerList)
  have d: "distinct (sessions ?g @ xs)" using Cons.prems(1) by (simp add: s)
  have m: "\<forall>x\<in>set (sessions ?g). set (playerList (heap ?g x)) = set (sessions ?g) \<and> distinct (playerList (heap ?g x))"
    using Cons.prems by (auto simp: s set_playerList_initPlayerList distinct_playerList_initPlayerList)
  have e: "\<forall>x\<in>set xs. playerList (heap ?g x) = []"
  proof
    fix x assume x: "x \<in> set xs"
    then have "x \<noteq> a" "x \<notin> set (sessions g)" using Cons.prems(1) by auto
    then have "set (playerList (heap ?g x)) = set (playerList (heap g x))"
      by (simp add: set_playerList_initPlayerList)
    then show "playerList (heap ?g x) = []" using Cons.prems(3) x by simp
  qed
  from Cons.IH [OF d m e] show ?case by (simp add: s)
qed

text \<open>
  C3: joining appends the session to the slice and introduces it to every session of the
  slice, itself included, in both directions. After the sessions \<open>xs\<close> (pairwise
  different, with empty presence lists) have joined an empty directory in turn, the
  directory is \<open>xs\<close>, and the presence list of every one of them holds exactly the sessions
  \<open>xs\<close>: as many entries as sessions have joined, itself among them.
\<close>

theorem join_full_mesh:
  assumes "distinct xs" "sessions g = []" "\<forall>x\<in>set xs. playerList (heap g x) = []"
  shows "sessions (joinAll xs g) = xs
     \<and> (\<forall>x\<in>set xs. set (playerList (heap (joinAll xs g) x)) = set xs
            \<and> length (playerList (heap (joinAll xs g) x)) = length xs)
     \<and> sessions (initPlayerList s g0) = sessions g0 @ [s]
     \<and> set (playerList (heap (initPlayerList s g0) y)) =
           set (playerList (heap g0 y))
             \<union> (if y = s then insert s (set (sessions g0)) else {})
             \<union> (if y = s \<or> y \<in> set (sessions g0) then {s} else {})"
proof -
  have "sessions (joinAll xs g) = sessions g @ xs \<and>
   (\<forall>x\<in>set (sessions g @ xs). set (playerList (heap (joinAll xs g) x)) = set (sessions g @ xs)
        \<and> distinct (playerList (heap (joinAll xs g) x)))"
    using assms by (intro joinAll_mesh) simp_all
  then have a: "sessions (joinAll xs g) = xs" and
    b: "\<And>x. x \<in> set xs \<Longrightarrow> set (playerList (heap (joinAll xs g) x)) = set xs
          \<and> distinct (playerList (heap (joinAll xs g) x))"
    using assms(2) by auto
  have "length (playerList (heap (joinAll xs g) x)) = length xs" if "x \<in> set xs" for x
    using b [OF that] assms(1) by (metis distinct_card)
  with a b have "sessions (joinAll xs g) = xs
     \<and> (\<forall>x\<in>set xs. set (playerList (heap (joinAll xs g) x)) = set xs
            \<and> length (playerList (heap (joinAll xs g) x)) = length xs)"
    by blast
  then show ?thesis
    using sessions_initPlayerList [of s g0] set_playerList_initPlayerList [of s g0 y]
    by blast
qed

theorem join_full_mesh_witness:
  "distinct [1, 2, 3 :: nat] \<and> sessions threeCreated = []
   \<and> playerList (heap threeCreated 1) = [] \<and> playerList (heap threeCreated 2) = []
   \<and> playerList (heap threeCreated 3) = []
   \<and> sessions (joinAll [1, 2, 3] threeCreated) = [1, 2, 3]
   \<and> set (playerList (heap (joinAll [1, 2, 3] threeCreated) 1)) = {1, 2, 3}
   \<and> length (playerList (heap (joinAll [1, 2, 3] threeCreated) 1)) = 3
   \<and> length (playerList (heap (joinAll [1, 2, 3] threeCreated) 2)) = 3
   \<and> length (playerList (heap (joinAll [1, 2, 3] threeCreated) 3)) = 3"
proof -
  have a: "distinct [1, 2, 3 :: nat]" by simp
  have b: "sessions threeCreated = []" by (simp add: model_defs threeCreated_def)
  have l: "playerList (heap threeCreated 1) = []" "playerList (heap threeCreated 2) = []"
    "playerList (heap threeCreated 3) = []"
    by (simp_all add: model_defs threeCreated_def)
  then have d: "\<forall>x\<in>set [1, 2, 3 :: nat]. playerList (heap threeCreated x) = []" by simp
  from join_full_mesh [OF a b d, of 1 threeCreated 1]
  have "sessions (joinAll [1, 2, 3] threeCreated) = [1, 2, 3]"
    and "\<forall>x\<in>set [1, 2, 3 :: nat].
           set (playerList (heap (joinAll [1, 2, 3] threeCreated) x)) = set [1, 2, 3]
           \<and> length (playerList (heap (joinAll [1, 2, 3] threeCreated) x)) = length [1, 2, 3 :: nat]"
    by blast+
  with a b l show ?thesis by simp
qed

lemma sessions_removeFromPlayerList: "sessions (removeFromPlayerList r x g) = sessions g"
  by (simp add: removeFromPlayerList_def updSession_def)

lemma playerList_remove:
  "playerList (heap (removeFromPlayerList r x g) y) =
     (if y = r then removeAll x (playerList (heap g y)) else playerList (heap g y))"
  by (simp add: removeFromPlayerList_def updSession_def)

lemma closeLoop_fst: "fst (closeLoop s L n g) = n @ filter (\<lambda>x. x \<noteq> s) L"
  by (induction L arbitrary: n g) simp_all

lemma closeLoop_sessions: "sessions (snd (closeLoop s L n g)) = sessions g"
  by (induction L arbitrary: n g) (simp_all add: sessions_removeFromPlayerList)

lemma closeLoop_playerList:
  "playerList (heap (snd (closeLoop s L n g)) y) =
     (if y \<in> set L then removeAll s (playerList (heap g y)) else playerList (heap g y))"
  by (induction L arbitrary: n g) (auto simp: playerList_remove)

lemma closePlayerList_Inr:
  "sessions g \<noteq> [] \<Longrightarrow>
   closePlayerList s g = Inr ((snd (closeLoop s (sessions g) [] g))\<lparr>sessions := filter (\<lambda>x. x \<noteq> s) (sessions g)\<rparr>)"
  using closeLoop_fst [of s "sessions g" "[]" g]
  by (cases "closeLoop s (sessions g) [] g") (auto simp: closePlayerList_def Let_def neq_Nil_conv)

lemma length_filter_neq:
  "x \<in> set L \<Longrightarrow> distinct L \<Longrightarrow> length (filter (\<lambda>y. y \<noteq> x) L) + 1 = length L"
proof (induction L)
  case Nil
  then show ?case by simp
next
  case (Cons a L)
  show ?case
  proof (cases "a = x")
    case True
    then have "x \<notin> set L" using Cons.prems(2) by simp
    then have "filter (\<lambda>y. y \<noteq> x) L = L" by (auto simp: filter_id_conv)
    with True show ?thesis by simp
  next
    case False
    with Cons show ?thesis by simp
  qed
qed

text \<open>
  C4: when a session that is in the directory (once) leaves, \<^verbatim>\<open>closePlayerList\<close> returns;
  the new slice is the old one without the departing session, built afresh and one element
  shorter; and the departing session is on the presence list of no remaining session,
  whose lists are otherwise as before.
\<close>

theorem leave_removes_session:
  assumes "s \<in> set (sessions g)" "distinct (sessions g)"
  shows "\<exists>g'. closePlayerList s g = Inr g'
     \<and> sessions g' = filter (\<lambda>x. x \<noteq> s) (sessions g)
     \<and> length (sessions g') + 1 = length (sessions g)
     \<and> set (sessions g') = set (sessions g) - {s}
     \<and> (\<forall>x\<in>set (sessions g'). playerList (heap g' x) = removeAll s (playerList (heap g x)))
     \<and> (\<forall>x\<in>set (sessions g'). s \<notin> set (playerList (heap g' x)))"
proof -
  have ne: "sessions g \<noteq> []" using assms(1) by auto
  have len: "length (filter (\<lambda>x. x \<noteq> s) (sessions g)) + 1 = length (sessions g)"
    using assms by (rule length_filter_neq)
  show ?thesis
    unfolding closePlayerList_Inr [OF ne]
    using len by (auto simp: closeLoop_playerList)
qed


theorem leave_removes_session_witness:
  "2 \<in> set (sessions (joinAll [1, 2, 3] threeCreated))
   \<and> distinct (sessions (joinAll [1, 2, 3] threeCreated))
   \<and> sessions (projr (closePlayerList 2 (joinAll [1, 2, 3] threeCreated))) = [1, 3]
   \<and> playerList (heap (projr (closePlayerList 2 (joinAll [1, 2, 3] threeCreated))) 1) = [1, 3]
   \<and> playerList (heap (projr (closePlayerList 2 (joinAll [1, 2, 3] threeCreated))) 3) = [1, 3]"
proof -
  have s: "sessions (joinAll [1, 2, 3] threeCreated) = [1, 2, 3]" by (simp add: model_defs threeCreated_def)
  have a: "2 \<in> set (sessions (joinAll [1, 2, 3] threeCreated))" unfolding s by simp
  have b: "distinct (sessions (joinAll [1, 2, 3] threeCreated))" unfolding s by simp
  have l: "playerList (heap (joinAll [1, 2, 3] threeCreated) 1) = [1, 2, 3]"
    "playerList (heap (joinAll [1, 2, 3] threeCreated) 3) = [1, 2, 3]"
    by (simp_all add: model_defs threeCreated_def)
  from leave_removes_session [OF a b] obtain g' where
    g': "closePlayerList 2 (joinAll [1, 2, 3] threeCreated) = Inr g'"
      "sessions g' = filter (\<lambda>x. x \<noteq> 2) (sessions (joinAll [1, 2, 3] threeCreated))"
      "\<forall>x\<in>set (sessions g').
         playerList (heap g' x) = removeAll 2 (playerList (heap (joinAll [1, 2, 3] threeCreated) x))"
    by blast
  from g'(2) have s': "sessions g' = [1, 3]" unfolding s by simp
  have m: "1 \<in> set (sessions g')" "3 \<in> set (sessions g')" unfolding s' by simp_all
  have "playerList (heap g' 1) = removeAll 2 [1, 2, 3]"
    using bspec [OF g'(3) m(1)] unfolding l .
  moreover have "playerList (heap g' 3) = removeAll 2 [1, 2, 3]"
    using bspec [OF g'(3) m(2)] unfolding l .
  ultimately have pl: "playerList (heap g' 1) = [1, 3]" "playerList (heap g' 3) = [1, 3]"
    by simp_all
  have p: "projr (closePlayerList 2 (joinAll [1, 2, 3] threeCreated)) = g'"
    by (simp only: g'(1) sum.sel)
  from a b s' pl show ?thesis unfolding p by blast
qed

subsection \<open>Closing a session\<close>

text \<open>
  What a call of \<^verbatim>\<open>Close\<close> that returns has done: the callback field is nil, the runtime
  IDs are gone while the counter stands, the session is out of the directory, and the stop
  callback has run once if one was recorded and not at all otherwise.
\<close>

lemma closeLoop_heap:
  "heap (snd (closeLoop s L n g)) x =
     (heap g x)\<lparr>playerList :=
        (if x \<in> set L then removeAll s (playerList (heap g x)) else playerList (heap g x))\<rparr>"
  by (induction L arbitrary: n g) (auto simp: removeFromPlayerList_def updSession_def)

lemma closeLoop_effects: "effects (snd (closeLoop s L n g)) = effects g"
  by (induction L arbitrary: n g) (simp_all add: removeFromPlayerList_def updSession_def)

lemma Close_returns:
  assumes "Close s g = Inr g'"
  shows "onStop (heap g' s) = None
     \<and> entityRuntimeIDs (heap g' s) = Map.empty
     \<and> currentEntityRuntimeID (heap g' s) = currentEntityRuntimeID (heap g s)
     \<and> c (heap g' s) = c (heap g s)
     \<and> chunkLoader (heap g' s) = chunkLoader (heap g s)
     \<and> sessions g' = filter (\<lambda>x. x \<noteq> s) (sessions g)
     \<and> count_list (effects g') (OnStop f e) =
         count_list (effects g) (OnStop f e)
           + (if onStop (heap g s) = Some f \<and> c (heap g s) = Some e then 1 else 0)"
proof -
  from assms obtain ctrl l where cl: "c (heap g s) = Some ctrl" "chunkLoader (heap g s) = Some l"
    by (auto simp: Close_def Let_def emit_def split: option.splits)
  from assms have ne: "sessions g \<noteq> []"
    using cl by (auto simp: Close_def Let_def emit_def closePlayerList_def split: option.splits if_splits)
  show ?thesis
    using assms cl ne
    by (auto simp: Close_def Let_def emit_def closePlayerList_Inr closeLoop_heap closeLoop_effects
        updSession_def Reset_def split: option.splits)
qed

lemma second_Close_panics:
  assumes "set (sessions g) \<subseteq> {s}" and "Close s g = Inr g'"
  shows "Close s g' = Inl (MakesliceCapOutOfRange (- 1))"
proof -
  from assms(2) obtain ctrl l where "c (heap g s) = Some ctrl" "chunkLoader (heap g s) = Some l"
    by (auto simp: Close_def Let_def emit_def split: option.splits)
  moreover from Close_returns [OF assms(2)] have "c (heap g' s) = c (heap g s)"
    "chunkLoader (heap g' s) = chunkLoader (heap g s)"
    "sessions g' = filter (\<lambda>x. x \<noteq> s) (sessions g)"
    by simp_all
  moreover have "filter (\<lambda>x. x \<noteq> s) (sessions g) = []"
    using assms(1) by (auto simp: filter_empty_conv)
  ultimately show ?thesis
    by (simp add: Close_def closePlayerList_def Let_def emit_def)
qed

text \<open>
  C1 (Close is idempotent: any number of calls triggers the stop callback exactly once and
  repeated calls leave the same Closed state as a single call). The code does not do this
  when the session is the only one in the directory. On the example, a session that was
  started on an empty server, the first \<^verbatim>\<open>Close\<close> returns, has run the stop callback once
  and has emptied the slice \<^verbatim>\<open>sessions\<close>; the second \<^verbatim>\<open>Close\<close> does not return: it panics in
  \<^verbatim>\<open>closePlayerList\<close>, asking for a slice of capacity -1.
\<close>

theorem Close_twice_only_session:
  "\<exists>g. Close 1 started = Inr g
     \<and> count_list (effects g) (OnStop 5 7) = 1
     \<and> onStop (heap g 1) = None
     \<and> sessions g = []
     \<and> Close 1 g = Inl (MakesliceCapOutOfRange (- 1))"
  by (simp add: model_defs)

text \<open>
  C10: when the slice \<^verbatim>\<open>sessions\<close> is empty, \<^verbatim>\<open>closePlayerList\<close> asks for a slice of
  capacity \<^verbatim>\<open>len(sessions)-1\<close> = -1 and panics, so \<^verbatim>\<open>Close\<close> does not complete; for a session
  that has its controllable and its loader (any session made by \<^verbatim>\<open>New\<close>) this is the panic
  that ends \<^verbatim>\<open>Close\<close>.
\<close>

theorem Close_empty_directory_panics:
  assumes "sessions g = []"
  shows "closePlayerList s g = Inl (MakesliceCapOutOfRange (- 1))
     \<and> isl (Close s g)
     \<and> (c (heap g s) \<noteq> None \<and> chunkLoader (heap g s) \<noteq> None
          \<longrightarrow> Close s g = Inl (MakesliceCapOutOfRange (- 1)))"
  using assms
  by (auto simp: Close_def closePlayerList_def Let_def emit_def split: option.splits)

theorem Close_empty_directory_panics_witness:
  "sessions created = []
     \<and> closePlayerList 1 created = Inl (MakesliceCapOutOfRange (- 1))
     \<and> isl (Close 1 created)
     \<and> Close 1 created = Inl (MakesliceCapOutOfRange (- 1))"
proof -
  have e: "sessions created = []" by (simp add: model_defs)
  have p: "c (heap created 1) \<noteq> None \<and> chunkLoader (heap created 1) \<noteq> None"
    by (simp add: model_defs)
  from Close_empty_directory_panics [OF e, of 1] e p show ?thesis by blast
qed

subsection \<open>The entity runtime IDs\<close>















subsection \<open>The read loop\<close>

lemma readStep_stops_iff:
  "fst (readStep hs s r g) \<longleftrightarrow>
     (\<exists>e. r = ReadError e) \<or> (\<exists>pk e. r = ReadPacket pk \<and> fst (handlePacket hs s pk g) = Some e)"
  by (cases r) (auto simp: readStep_def split: prod.splits option.splits)

lemma readLoop_Cons:
  "readLoop hs s (r # rs) g =
     (if fst (readStep hs s r g) then (True, snd (readStep hs s r g))
      else readLoop hs s rs (snd (readStep hs s r g)))"
  by (cases "readStep hs s r g") auto

lemma readLoop_append:
  "readLoop hs s (xs @ ys) g =
     (if fst (readLoop hs s xs g) then readLoop hs s xs g
      else readLoop hs s ys (snd (readLoop hs s xs g)))"
  by (induction xs arbitrary: g) (simp_all add: readLoop_Cons del: readLoop.simps(2))

lemma readLoop_stops_iff:
  "fst (readLoop hs s reads g) \<longleftrightarrow>
     (\<exists>pre r post. reads = pre @ r # post \<and> \<not> fst (readLoop hs s pre g)
         \<and> fst (readStep hs s r (snd (readLoop hs s pre g))))"
proof (induction reads arbitrary: g)
  case Nil
  then show ?case by simp
next
  case (Cons a reads)
  show ?case
  proof (cases "fst (readStep hs s a g)")
    case True
    have "a # reads = [] @ a # reads \<and> \<not> fst (readLoop hs s [] g)
        \<and> fst (readStep hs s a (snd (readLoop hs s [] g)))"
      using True by simp
    then have "\<exists>pre r post. a # reads = pre @ r # post \<and> \<not> fst (readLoop hs s pre g)
         \<and> fst (readStep hs s r (snd (readLoop hs s pre g)))"
      by blast
    moreover have "fst (readLoop hs s (a # reads) g)" using True by (simp add: readLoop_Cons del: readLoop.simps(2))
    ultimately show ?thesis by blast
  next
    case False
    let ?g = "snd (readStep hs s a g)"
    have e: "readLoop hs s (a # reads) g = readLoop hs s reads ?g"
      using False by (simp add: readLoop_Cons del: readLoop.simps(2))
    have pre: "\<And>pre. readLoop hs s (a # pre) g = readLoop hs s pre ?g"
      using False by (simp add: readLoop_Cons del: readLoop.simps(2))
    show ?thesis
    proof
      assume "fst (readLoop hs s (a # reads) g)"
      then have "fst (readLoop hs s reads ?g)" by (simp only: e)
      then obtain pre r post where d: "reads = pre @ r # post" "\<not> fst (readLoop hs s pre ?g)"
        "fst (readStep hs s r (snd (readLoop hs s pre ?g)))"
        using Cons.IH [of ?g] by blast
      then have "a # reads = (a # pre) @ r # post \<and> \<not> fst (readLoop hs s (a # pre) g)
         \<and> fst (readStep hs s r (snd (readLoop hs s (a # pre) g)))"
        by (simp only: pre) simp
      then show "\<exists>pre r post. a # reads = pre @ r # post \<and> \<not> fst (readLoop hs s pre g)
         \<and> fst (readStep hs s r (snd (readLoop hs s pre g)))"
        by blast
    next
      assume "\<exists>pre r post. a # reads = pre @ r # post \<and> \<not> fst (readLoop hs s pre g)
         \<and> fst (readStep hs s r (snd (readLoop hs s pre g)))"
      then obtain pre r post where d: "a # reads = pre @ r # post" "\<not> fst (readLoop hs s pre g)"
        "fst (readStep hs s r (snd (readLoop hs s pre g)))"
        by blast
      show "fst (readLoop hs s (a # reads) g)"
      proof (cases pre)
        case Nil
        with d False show ?thesis by simp
      next
        case (Cons b pre')
        with d have r: "reads = pre' @ r # post" and b: "b = a" by simp_all
        from d(2,3) have "\<not> fst (readLoop hs s pre' ?g)"
          "fst (readStep hs s r (snd (readLoop hs s pre' ?g)))"
          unfolding Cons b pre by simp_all
        with r have "fst (readLoop hs s reads ?g)" using Cons.IH [of ?g] by blast
        then show ?thesis by (simp only: e)
      qed
    qed
  qed
qed

text \<open>
  C6: \<^verbatim>\<open>handlePackets\<close> reads one message after the other and dispatches each by its kind:
  a text message to \<^verbatim>\<open>handleText\<close>, a command request to \<^verbatim>\<open>handleCommandRequest\<close>, a movement
  update to \<^verbatim>\<open>handleMovePlayer\<close>, a chunk-radius request to \<^verbatim>\<open>handleRequestChunkRadius\<close>, with
  the handler's state and error as the result of the dispatch; the ignorable kind and every
  other kind call no handler and yield no error. The function returns exactly when one of
  the reads fails or one of the handlers returns an error, the reads before it having
  succeeded and been handled without error; and when it returns, its result is that of the
  send on the channel followed by \<^verbatim>\<open>Close\<close>. A failed read stops the loop with the state as
  it is; a handler error is logged at error level and stops the loop; a message handled
  without error lets the loop go on with the next read.
\<close>

theorem handlePackets_returns_iff:
  "((\<exists>x. handlePackets hs s reads g = Returned x) \<longleftrightarrow>
      (\<exists>pre r post. reads = pre @ r # post
         \<and> \<not> fst (readLoop hs s pre (emit (GoSendChunks s) g))
         \<and> ((\<exists>e. r = ReadError e) \<or>
              (\<exists>pk e. r = ReadPacket pk \<and>
                 fst (handlePacket hs s pk (snd (readLoop hs s pre (emit (GoSendChunks s) g)))) = Some e))))
   \<and> (\<forall>x. handlePackets hs s reads g = Returned x \<longrightarrow>
         x = Close s (emit (ChanSend s) (snd (readLoop hs s reads (emit (GoSendChunks s) g)))))
   \<and> (\<forall>e rs g1. readLoop hs s (ReadError e # rs) g1 = (True, g1))
   \<and> (\<forall>pk e rs g1 g2. handlePacket hs s pk g1 = (Some e, g2) \<longrightarrow>
         readLoop hs s (ReadPacket pk # rs) g1 =
           (True, emit (Log ErrorLevel (PacketError (conn (heap g2 s)) e)) g2))
   \<and> (\<forall>pk rs g1 g2. handlePacket hs s pk g1 = (None, g2) \<longrightarrow>
         readLoop hs s (ReadPacket pk # rs) g1 = readLoop hs s rs g2)
   \<and> (\<forall>d g1. handlePacket hs s (Text d) g1 = handleText hs s d g1)
   \<and> (\<forall>d g1. handlePacket hs s (CommandRequest d) g1 = handleCommandRequest hs s d g1)
   \<and> (\<forall>d g1. handlePacket hs s (MovePlayer d) g1 = handleMovePlayer hs s d g1)
   \<and> (\<forall>d g1. handlePacket hs s (RequestChunkRadius d) g1 = handleRequestChunkRadius hs s d g1)
   \<and> (\<forall>d g1. handlePacket hs s (BossEvent d) g1 = (None, g1))
   \<and> (\<forall>k d g1. fst (handlePacket hs s (OtherPacket k d) g1) = None)"
proof -
  let ?g0 = "emit (GoSendChunks s) g"
  have r: "(\<exists>x. handlePackets hs s reads g = Returned x) \<longleftrightarrow> fst (readLoop hs s reads ?g0)"
    by (cases "readLoop hs s reads ?g0") (auto simp: handlePackets_def split: bool.splits)
  have a: "(\<exists>x. handlePackets hs s reads g = Returned x) \<longleftrightarrow>
      (\<exists>pre r post. reads = pre @ r # post
         \<and> \<not> fst (readLoop hs s pre ?g0)
         \<and> ((\<exists>e. r = ReadError e) \<or>
              (\<exists>pk e. r = ReadPacket pk \<and>
                 fst (handlePacket hs s pk (snd (readLoop hs s pre ?g0))) = Some e)))"
    unfolding r readLoop_stops_iff [of hs s reads ?g0] readStep_stops_iff ..
  have b: "\<forall>x. handlePackets hs s reads g = Returned x \<longrightarrow>
         x = Close s (emit (ChanSend s) (snd (readLoop hs s reads ?g0)))"
    by (cases "readLoop hs s reads ?g0") (auto simp: handlePackets_def deferred_def split: bool.splits)
  have c: "\<forall>e rs g1. readLoop hs s (ReadError e # rs) g1 = (True, g1)"
    by (simp add: readStep_def)
  have d: "\<forall>pk e rs g1 g2. handlePacket hs s pk g1 = (Some e, g2) \<longrightarrow>
         readLoop hs s (ReadPacket pk # rs) g1 =
           (True, emit (Log ErrorLevel (PacketError (conn (heap g2 s)) e)) g2)"
    by (simp add: readStep_def)
  have e: "\<forall>pk rs g1 g2. handlePacket hs s pk g1 = (None, g2) \<longrightarrow>
         readLoop hs s (ReadPacket pk # rs) g1 = readLoop hs s rs g2"
    by (simp add: readStep_def)
  have f: "(\<forall>d g1. handlePacket hs s (Text d) g1 = handleText hs s d g1)
   \<and> (\<forall>d g1. handlePacket hs s (CommandRequest d) g1 = handleCommandRequest hs s d g1)
   \<and> (\<forall>d g1. handlePacket hs s (MovePlayer d) g1 = handleMovePlayer hs s d g1)
   \<and> (\<forall>d g1. handlePacket hs s (RequestChunkRadius d) g1 = handleRequestChunkRadius hs s d g1)
   \<and> (\<forall>d g1. handlePacket hs s (BossEvent d) g1 = (None, g1))
   \<and> (\<forall>k d g1. fst (handlePacket hs s (OtherPacket k d) g1) = None)"
    by simp
  from a b c d e f show ?thesis by blast
qed

theorem handlePackets_returns_iff_witness:
  "handlePackets strictHandlers 1 [ReadPacket (Text [1]), ReadPacket (Text [])] started =
     Returned (Close 1 (emit (ChanSend 1)
       (emit (Log ErrorLevel (PacketError (Some 3) ''bad text'')) (emit (GoSendChunks 1) started))))
   \<and> handlePackets strictHandlers 1 [ReadPacket (CommandRequest [])] started =
     Returned (Close 1 (emit (ChanSend 1)
       (emit (Log ErrorLevel (PacketError (Some 3) ''bad command'')) (emit (GoSendChunks 1) started))))
   \<and> handlePackets strictHandlers 1
        [ReadPacket (MovePlayer [1]), ReadPacket (MovePlayer []), ReadPacket (Text [])] started =
     Returned (Close 1 (emit (ChanSend 1)
       (emit (Log ErrorLevel (PacketError (Some 3) ''bad position'')) (emit (GoSendChunks 1) started))))
   \<and> handlePackets strictHandlers 1 [ReadPacket (RequestChunkRadius [])] started =
     Returned (Close 1 (emit (ChanSend 1)
       (emit (Log ErrorLevel (PacketError (Some 3) ''bad radius'')) (emit (GoSendChunks 1) started))))
   \<and> handlePackets strictHandlers 1 [ReadPacket (BossEvent []), ReadError ''EOF''] started =
     Returned (Close 1 (emit (ChanSend 1) (emit (GoSendChunks 1) started)))
   \<and> handlePackets strictHandlers 1
        [ReadPacket (Text [1]), ReadPacket (BossEvent []), ReadPacket (OtherPacket 99 [])] started =
     Blocked (emit (Log DebugLevel (UnhandledPacket (OtherPacket 99 []) (Some 3)))
        (emit (GoSendChunks 1) started))"
proof -
  have k: "conn (heap started 1) = Some 3" by (simp add: model_defs)
  note t = handlePackets_returns_iff [of strictHandlers 1
      "[ReadPacket (Text [1]), ReadPacket (Text [])]" started]
  have a: "handlePackets strictHandlers 1 [ReadPacket (Text [1]), ReadPacket (Text [])] started =
     Returned (Close 1 (emit (ChanSend 1)
       (emit (Log ErrorLevel (PacketError (Some 3) ''bad text'')) (emit (GoSendChunks 1) started))))"
    using k
    by (simp add: readStep_def strictHandlers_def handlePackets_def deferred_def emit_def)
  have b: "handlePackets strictHandlers 1 [ReadPacket (CommandRequest [])] started =
     Returned (Close 1 (emit (ChanSend 1)
       (emit (Log ErrorLevel (PacketError (Some 3) ''bad command'')) (emit (GoSendChunks 1) started))))"
    using k
    by (simp add: readStep_def strictHandlers_def handlePackets_def deferred_def emit_def)
  have c: "handlePackets strictHandlers 1
        [ReadPacket (MovePlayer [1]), ReadPacket (MovePlayer []), ReadPacket (Text [])] started =
     Returned (Close 1 (emit (ChanSend 1)
       (emit (Log ErrorLevel (PacketError (Some 3) ''bad position'')) (emit (GoSendChunks 1) started))))"
    using k
    by (simp add: readStep_def strictHandlers_def handlePackets_def deferred_def emit_def)
  have d: "handlePackets strictHandlers 1 [ReadPacket (RequestChunkRadius [])] started =
     Returned (Close 1 (emit (ChanSend 1)
       (emit (Log ErrorLevel (PacketError (Some 3) ''bad radius'')) (emit (GoSendChunks 1) started))))"
    using k
    by (simp add: readStep_def strictHandlers_def handlePackets_def deferred_def emit_def)
  have e: "handlePackets strictHandlers 1 [ReadPacket (BossEvent []), ReadError ''EOF''] started =
     Returned (Close 1 (emit (ChanSend 1) (emit (GoSendChunks 1) started)))"
    by (simp add: readStep_def handlePackets_def deferred_def)
  have f: "handlePackets strictHandlers 1
        [ReadPacket (Text [1]), ReadPacket (BossEvent []), ReadPacket (OtherPacket 99 [])] started =
     Blocked (emit (Log DebugLevel (UnhandledPacket (OtherPacket 99 []) (Some 3)))
        (emit (GoSendChunks 1) started))"
    using k by (simp add: readStep_def strictHandlers_def handlePackets_def deferred_def emit_def)
  from t a b c d e f show ?thesis by blast
qed

subsection \<open>The chunk scheduler and the shutdown\<close>

lemma loadTick_Inr:
  "chunkLoader (heap g s) \<noteq> None \<Longrightarrow>
   loadTick s r g = Inr (g\<lparr>effects := effects g @
      LoaderLoad s 4 # (case r of None \<Rightarrow> [] | Some e \<Rightarrow> [Log ErrorLevel (ChunkError e)])\<rparr>)"
  by (auto simp: loadTick_def emit_def Let_def split: option.splits)

lemma sendChunks_ticks:
  "chunkLoader (heap g s) \<noteq> None \<Longrightarrow>
   sendChunks s (map Tick rs) g = Waiting (g\<lparr>effects := effects g @
      concat (map (\<lambda>r. LoaderLoad s 4 # (case r of None \<Rightarrow> [] | Some e \<Rightarrow> [Log ErrorLevel (ChunkError e)])) rs)\<rparr>)"
proof (induction rs arbitrary: g)
  case Nil
  then show ?case by simp
next
  case (Cons r rs)
  let ?g = "g\<lparr>effects := effects g @
      LoaderLoad s 4 # (case r of None \<Rightarrow> [] | Some e \<Rightarrow> [Log ErrorLevel (ChunkError e)])\<rparr>"
  have l: "loadTick s r g = Inr ?g" using Cons.prems by (rule loadTick_Inr)
  have "chunkLoader (heap ?g s) \<noteq> None" using Cons.prems by simp
  from Cons.IH [OF this] l show ?case by simp
qed

lemma exec_append:
  "exec hs s (xs @ ys) cf =
     (case exec hs s xs cf of None \<Rightarrow> None | Some cf' \<Rightarrow> exec hs s ys cf')"
  by (induction xs arbitrary: cf) (simp_all split: option.splits)

lemma fire_after_return:
  "fire hs s a cf = Some cf' \<Longrightarrow> sched cf = SchedReturned \<Longrightarrow>
   sched cf' = SchedReturned \<and> (\<forall>r. a \<noteq> ATick r)"
  by (cases a) (auto simp: fire_def split: if_splits prod.splits sum.splits)

lemma fire_before_signal:
  "fire hs s a cf = Some cf' \<Longrightarrow> reader cf = Reading \<or> reader cf = Signalling \<Longrightarrow>
   a \<noteq> AClose \<and> (a \<noteq> ARendezvous \<longrightarrow> reader cf' = Reading \<or> reader cf' = Signalling)"
  by (cases a) (auto simp: fire_def split: if_splits prod.splits sum.splits)

lemma fire_rendezvous:
  "fire hs s ARendezvous cf = Some cf' \<Longrightarrow> sched cf' = SchedReturned"
  by (auto simp: fire_def split: if_splits)

lemma no_tick_after_return:
  "exec hs s tr cf = Some cf' \<Longrightarrow> sched cf = SchedReturned \<Longrightarrow> ATick r \<notin> set tr"
proof (induction tr arbitrary: cf)
  case Nil
  then show ?case by simp
next
  case (Cons a tr)
  then obtain c1 where f: "fire hs s a cf = Some c1" and e: "exec hs s tr c1 = Some cf'"
    by (auto split: option.splits)
  from fire_after_return [OF f Cons.prems(2)] have "sched c1 = SchedReturned" "a \<noteq> ATick r"
    by simp_all
  with Cons.IH [OF e] show ?case by simp
qed

lemma Close_after_rendezvous:
  "exec hs s (pre @ AClose # post) cf = Some cf' \<Longrightarrow>
   reader cf = Reading \<or> reader cf = Signalling \<Longrightarrow> ARendezvous \<in> set pre"
proof (induction pre arbitrary: cf)
  case Nil
  then obtain c1 where "fire hs s AClose cf = Some c1" by (auto split: option.splits)
  from fire_before_signal [OF this Nil.prems(2)] show ?case by simp
next
  case (Cons a pre)
  then obtain c1 where f: "fire hs s a cf = Some c1"
    and e: "exec hs s (pre @ AClose # post) c1 = Some cf'"
    by (auto split: option.splits)
  show ?case
  proof (cases "a = ARendezvous")
    case True
    then show ?thesis by simp
  next
    case False
    with fire_before_signal [OF f Cons.prems(2)]
    have "reader c1 = Reading \<or> reader c1 = Signalling" by simp
    from Cons.IH [OF e this] show ?thesis by simp
  qed
qed

lemma no_tick_after_rendezvous:
  assumes "exec hs s (pre @ ARendezvous # post) cf = Some cf'"
  shows "ATick r \<notin> set post"
proof -
  from assms obtain c1 c2 where "exec hs s pre cf = Some c1"
    and f: "fire hs s ARendezvous c1 = Some c2" and e: "exec hs s post c2 = Some cf'"
    by (auto simp: exec_append split: option.splits)
  from no_tick_after_return [OF e fire_rendezvous [OF f]] show ?thesis .
qed

lemma fire_leaves_Reading:
  "fire hs s a cf = Some cf' \<Longrightarrow> reader cf = Reading \<Longrightarrow> reader cf' \<noteq> Reading \<Longrightarrow>
   \<exists>r. a = ARead r \<and> fst (readStep hs s r (st cf))"
  by (cases a) (auto simp: fire_def split: if_splits prod.splits sum.splits)

lemma leaves_Reading:
  "exec hs s tr cf = Some cf' \<Longrightarrow> reader cf = Reading \<Longrightarrow> reader cf' \<noteq> Reading \<Longrightarrow>
   \<exists>pre r post ci. tr = pre @ ARead r # post \<and> exec hs s pre cf = Some ci
      \<and> reader ci = Reading \<and> fst (readStep hs s r (st ci))"
proof (induction tr arbitrary: cf)
  case Nil
  then show ?case by simp
next
  case (Cons a tr)
  then obtain c1 where f: "fire hs s a cf = Some c1" and e: "exec hs s tr c1 = Some cf'"
    by (auto split: option.splits)
  show ?case
  proof (cases "reader c1 = Reading")
    case True
    from Cons.IH [OF e True Cons.prems(3)] obtain pre r post ci where
      d: "tr = pre @ ARead r # post" "exec hs s pre c1 = Some ci" "reader ci = Reading"
         "fst (readStep hs s r (st ci))"
      by blast
    then have "a # tr = (a # pre) @ ARead r # post \<and> exec hs s (a # pre) cf = Some ci
       \<and> reader ci = Reading \<and> fst (readStep hs s r (st ci))"
      using f by simp
    then show ?thesis by blast
  next
    case False
    from fire_leaves_Reading [OF f Cons.prems(2) False] obtain r where
      "a = ARead r" "fst (readStep hs s r (st cf))" by blast
    then have "a # tr = [] @ ARead r # tr \<and> exec hs s [] cf = Some cf
       \<and> reader cf = Reading \<and> fst (readStep hs s r (st cf))"
      using Cons.prems(2) by simp
    then show ?thesis by blast
  qed
qed

lemma ticks_only:
  "reader cf = Reading \<Longrightarrow> sched cf = Selecting \<Longrightarrow> crashed cf = None \<Longrightarrow>
   chunkLoader (heap (st cf) s) \<noteq> None \<Longrightarrow>
   exec hs s (map ATick rs) cf = Some (cf\<lparr>st := (st cf)\<lparr>effects := effects (st cf) @
      concat (map (\<lambda>r. LoaderLoad s 4 # (case r of None \<Rightarrow> [] | Some e \<Rightarrow> [Log ErrorLevel (ChunkError e)])) rs)\<rparr>\<rparr>)"
proof (induction rs arbitrary: cf)
  case Nil
  then show ?case by simp
next
  case (Cons r rs)
  let ?g = "(st cf)\<lparr>effects := effects (st cf) @
      LoaderLoad s 4 # (case r of None \<Rightarrow> [] | Some e \<Rightarrow> [Log ErrorLevel (ChunkError e)])\<rparr>"
  have f: "fire hs s (ATick r) cf = Some (cf\<lparr>st := ?g\<rparr>)"
    using Cons.prems by (simp add: fire_def loadTick_Inr)
  have "exec hs s (map ATick rs) (cf\<lparr>st := ?g\<rparr>) = Some ((cf\<lparr>st := ?g\<rparr>)\<lparr>st := (st (cf\<lparr>st := ?g\<rparr>))\<lparr>effects := effects (st (cf\<lparr>st := ?g\<rparr>)) @
      concat (map (\<lambda>r. LoaderLoad s 4 # (case r of None \<Rightarrow> [] | Some e \<Rightarrow> [Log ErrorLevel (ChunkError e)])) rs)\<rparr>\<rparr>)"
    using Cons.prems by (intro Cons.IH) simp_all
  with f show ?case by simp
qed


text \<open>
  C5: for a session with a loader, whatever the loads return, \<^verbatim>\<open>sendChunks\<close> goes through
  every tick and waits for the next one: each tick calls \<^verbatim>\<open>Load(4)\<close> once, a failed load
  adds one line to the error log, and nothing else changes, so no step of \<^verbatim>\<open>Close\<close> is
  taken. In the transition system a run of ticks leaves the reader in its loop and the
  scheduler at its \<^verbatim>\<open>select\<close>; and in any run, a reader that has left its loop has done so
  at a read that failed or at a message whose handler returned an error.
\<close>

theorem failed_load_keeps_session_open:
  assumes "chunkLoader (heap g s) \<noteq> None"
  shows "sendChunks s (map Tick rs) g =
           Waiting (g\<lparr>effects := effects g @
             concat (map (\<lambda>r. LoaderLoad s 4 #
               (case r of None \<Rightarrow> [] | Some e \<Rightarrow> [Log ErrorLevel (ChunkError e)])) rs)\<rparr>)
     \<and> exec hs s (map ATick rs) (startConfig s g) =
           Some ((startConfig s g)\<lparr>st := (st (startConfig s g))\<lparr>effects :=
             effects (st (startConfig s g)) @
             concat (map (\<lambda>r. LoaderLoad s 4 #
               (case r of None \<Rightarrow> [] | Some e \<Rightarrow> [Log ErrorLevel (ChunkError e)])) rs)\<rparr>\<rparr>)
     \<and> (\<forall>tr cf. exec hs s tr (startConfig s g) = Some cf \<and> reader cf \<noteq> Reading \<longrightarrow>
           (\<exists>pre r post ci. tr = pre @ ARead r # post
              \<and> exec hs s pre (startConfig s g) = Some ci
              \<and> ((\<exists>e. r = ReadError e) \<or>
                   (\<exists>pk e. r = ReadPacket pk \<and> fst (handlePacket hs s pk (st ci)) = Some e))))"
proof -
  have a: "sendChunks s (map Tick rs) g =
           Waiting (g\<lparr>effects := effects g @
             concat (map (\<lambda>r. LoaderLoad s 4 #
               (case r of None \<Rightarrow> [] | Some e \<Rightarrow> [Log ErrorLevel (ChunkError e)])) rs)\<rparr>)"
    using assms by (rule sendChunks_ticks)
  have b: "exec hs s (map ATick rs) (startConfig s g) =
           Some ((startConfig s g)\<lparr>st := (st (startConfig s g))\<lparr>effects :=
             effects (st (startConfig s g)) @
             concat (map (\<lambda>r. LoaderLoad s 4 #
               (case r of None \<Rightarrow> [] | Some e \<Rightarrow> [Log ErrorLevel (ChunkError e)])) rs)\<rparr>\<rparr>)"
    using assms by (intro ticks_only) (simp_all add: startConfig_def emit_def)
  have d: "\<exists>pre r post ci. tr = pre @ ARead r # post
              \<and> exec hs s pre (startConfig s g) = Some ci
              \<and> ((\<exists>e. r = ReadError e) \<or>
                   (\<exists>pk e. r = ReadPacket pk \<and> fst (handlePacket hs s pk (st ci)) = Some e))"
    if "exec hs s tr (startConfig s g) = Some cf \<and> reader cf \<noteq> Reading" for tr cf
  proof -
    have "reader (startConfig s g) = Reading" by (simp add: startConfig_def)
    with that leaves_Reading [of hs s tr "startConfig s g" cf]
    obtain pre r post ci where "tr = pre @ ARead r # post"
      "exec hs s pre (startConfig s g) = Some ci" "fst (readStep hs s r (st ci))"
      by blast
    then show ?thesis unfolding readStep_stops_iff by blast
  qed
  from a b d show ?thesis by blast
qed

theorem failed_load_keeps_session_open_witness:
  "chunkLoader (heap started 1) \<noteq> None
   \<and> sendChunks 1 (map Tick [Some ''world closed'', None]) started =
       Waiting (started\<lparr>effects := effects started @
          [LoaderLoad 1 4, Log ErrorLevel (ChunkError ''world closed''), LoaderLoad 1 4]\<rparr>)
   \<and> reader (the (exec sampleHandlers 1 (map ATick [Some ''world closed'', None])
          (startConfig 1 started))) = Reading
   \<and> sched (the (exec sampleHandlers 1 (map ATick [Some ''world closed'', None])
          (startConfig 1 started))) = Selecting"
proof -
  have h: "chunkLoader (heap started 1) \<noteq> None" by (simp add: model_defs)
  note t = failed_load_keeps_session_open [OF h, of "[Some ''world closed'', None]" sampleHandlers]
  from t have a: "sendChunks 1 (map Tick [Some ''world closed'', None]) started =
       Waiting (started\<lparr>effects := effects started @
          [LoaderLoad 1 4, Log ErrorLevel (ChunkError ''world closed''), LoaderLoad 1 4]\<rparr>)"
    by simp
  from t have b: "exec sampleHandlers 1 (map ATick [Some ''world closed'', None])
          (startConfig 1 started) =
       Some ((startConfig 1 started)\<lparr>st := (st (startConfig 1 started))\<lparr>effects :=
             effects (st (startConfig 1 started)) @
             concat (map (\<lambda>r. LoaderLoad 1 4 #
               (case r of None \<Rightarrow> [] | Some e \<Rightarrow> [Log ErrorLevel (ChunkError e)]))
                [Some ''world closed'', None])\<rparr>\<rparr>)"
    by (rule conjunct1 [OF conjunct2])
  have "reader (the (exec sampleHandlers 1 (map ATick [Some ''world closed'', None])
          (startConfig 1 started))) = Reading"
    and "sched (the (exec sampleHandlers 1 (map ATick [Some ''world closed'', None])
          (startConfig 1 started))) = Selecting"
    unfolding b by (simp_all add: startConfig_def)
  with h a show ?thesis by blast
qed

lemma Close_effects:
  assumes "Close s g = Inr g'"
  shows "\<exists>ctrl. c (heap g s) = Some ctrl \<and> effects g' = effects g @
           [ControllableClose ctrl, ConnClose (conn (heap g s)), LoaderClose s,
            WorldRemoveEntity (world (heap g s)) ctrl,
            ChatPrintln (conn (heap g s)) ''has left the game''] @
           (case onStop (heap g s) of None \<Rightarrow> [] | Some f \<Rightarrow> [OnStop f ctrl])"
proof -
  from assms obtain ctrl l where cl: "c (heap g s) = Some ctrl" "chunkLoader (heap g s) = Some l"
    by (auto simp: Close_def Let_def emit_def split: option.splits)
  from assms have ne: "sessions g \<noteq> []"
    using cl by (auto simp: Close_def Let_def emit_def closePlayerList_def split: option.splits if_splits)
  show ?thesis
    using assms cl ne
    by (auto simp: Close_def Let_def emit_def closePlayerList_Inr closeLoop_heap closeLoop_effects
        updSession_def Reset_def split: option.splits)
qed

lemma fire_dead:
  "crashed cf \<noteq> None \<or> (reader cf = Closed \<and> sched cf = SchedReturned) \<Longrightarrow> fire hs s a cf = None"
  by (cases a) (auto simp: fire_def)

lemma exec_dead:
  "crashed cf \<noteq> None \<or> (reader cf = Closed \<and> sched cf = SchedReturned) \<Longrightarrow>
   exec hs s tr cf = Some cf' \<Longrightarrow> tr = []"
  by (cases tr) (auto simp: fire_dead)

lemma after_signal:
  assumes "reader cf = Closing" "sched cf = SchedReturned" "crashed cf = None"
    and "exec hs s post cf = Some cf'"
  shows "(post = [] \<and> cf' = cf)
       \<or> (post = [AClose] \<and> crashed cf' = None \<and> reader cf' = Closed \<and> Close s (st cf) = Inr (st cf'))
       \<or> (post = [AClose] \<and> st cf' = st cf \<and> (\<exists>p. crashed cf' = Some p \<and> Close s (st cf) = Inl p))"
proof (cases post)
  case Nil
  with assms show ?thesis by simp
next
  case (Cons a rest)
  with assms(4) obtain c1 where f: "fire hs s a cf = Some c1" and e: "exec hs s rest c1 = Some cf'"
    by (auto split: option.splits)
  from f assms(1,2,3) have a: "a = AClose"
    by (cases a) (auto simp: fire_def split: if_splits)
  show ?thesis
  proof (cases "Close s (st cf)")
    case (Inl p)
    with f a assms(1,3) have c1: "c1 = cf\<lparr>crashed := Some p\<rparr>" by (simp add: fire_def)
    then have "crashed c1 \<noteq> None" by simp
    with e have "rest = []" using exec_dead by blast
    with e have "cf' = cf\<lparr>crashed := Some p\<rparr>" using c1 by simp
    then have "st cf' = st cf" "crashed cf' = Some p" by simp_all
    with \<open>rest = []\<close> Cons a Inl show ?thesis by simp
  next
    case (Inr g')
    with f a assms(1,3) have c1: "c1 = cf\<lparr>reader := Closed, st := g'\<rparr>" by (simp add: fire_def)
    then have "reader c1 = Closed \<and> sched c1 = SchedReturned" using assms(2) by simp
    with e have "rest = []" using exec_dead by blast
    with e have "cf' = cf\<lparr>reader := Closed, st := g'\<rparr>" using c1 by simp
    then have "st cf' = g'" "reader cf' = Closed" "crashed cf' = None" using assms(3) by simp_all
    with \<open>rest = []\<close> Cons a Inr show ?thesis by simp
  qed
qed

lemma rendezvous_split:
  assumes "exec hs s (pre @ ARendezvous # post) c0 = Some cf"
  shows "\<exists>c1. exec hs s pre c0 = Some c1 \<and> reader c1 = Signalling \<and> sched c1 = Selecting
           \<and> crashed c1 = None
           \<and> exec hs s post (c1\<lparr>reader := Closing, sched := SchedReturned,
                 st := emit (TickerStop s) (emit (ChanSend s) (st c1))\<rparr>) = Some cf"
proof -
  from assms obtain c1 c2 where p: "exec hs s pre c0 = Some c1"
    and f: "fire hs s ARendezvous c1 = Some c2" and e: "exec hs s post c2 = Some cf"
    by (auto simp: exec_append split: option.splits)
  from f have "reader c1 = Signalling \<and> sched c1 = Selecting \<and> crashed c1 = None
     \<and> c2 = c1\<lparr>reader := Closing, sched := SchedReturned,
                 st := emit (TickerStop s) (emit (ChanSend s) (st c1))\<rparr>"
    by (auto simp: fire_def split: if_splits)
  with p e show ?thesis by auto
qed

lemma signal_then_Close:
  assumes "exec hs s (pre @ ARendezvous # post) c0 = Some cf"
  shows "\<exists>c1. exec hs s pre c0 = Some c1 \<and> reader c1 = Signalling
     \<and> ((post = [] \<and> crashed cf = None \<and> reader cf = Closing
            \<and> st cf = emit (TickerStop s) (emit (ChanSend s) (st c1)))
        \<or> (post = [AClose] \<and> crashed cf = None \<and> reader cf = Closed
            \<and> Close s (emit (TickerStop s) (emit (ChanSend s) (st c1))) = Inr (st cf))
        \<or> (post = [AClose]
            \<and> (\<exists>p. crashed cf = Some p
                  \<and> Close s (emit (TickerStop s) (emit (ChanSend s) (st c1))) = Inl p)))
     \<and> (\<forall>s' n. LoaderLoad s' n \<notin> set (drop (length (effects (st c1))) (effects (st cf))))"
proof -
  from rendezvous_split [OF assms] obtain c1 where
    p: "exec hs s pre c0 = Some c1" "reader c1 = Signalling" "crashed c1 = None"
    and e: "exec hs s post (c1\<lparr>reader := Closing, sched := SchedReturned,
                 st := emit (TickerStop s) (emit (ChanSend s) (st c1))\<rparr>) = Some cf"
    by blast
  let ?c2 = "c1\<lparr>reader := Closing, sched := SchedReturned,
                 st := emit (TickerStop s) (emit (ChanSend s) (st c1))\<rparr>"
  let ?X = "emit (TickerStop s) (emit (ChanSend s) (st c1))"
  have x: "effects ?X = effects (st c1) @ [ChanSend s, TickerStop s]" by (simp add: emit_def)
  have "reader ?c2 = Closing" "sched ?c2 = SchedReturned" "crashed ?c2 = None"
    using p(3) by simp_all
  from after_signal [OF this e]
  have d: "(post = [] \<and> cf = ?c2)
       \<or> (post = [AClose] \<and> crashed cf = None \<and> reader cf = Closed \<and> Close s ?X = Inr (st cf))
       \<or> (post = [AClose] \<and> st cf = ?X \<and> (\<exists>p. crashed cf = Some p \<and> Close s ?X = Inl p))"
    by simp
  have n: "LoaderLoad s' n \<notin> set (drop (length (effects (st c1))) (effects (st cf)))" for s' n
  proof -
    from d consider "st cf = ?X" | "Close s ?X = Inr (st cf)" by auto
    then show ?thesis
    proof cases
      case 1
      then show ?thesis by (simp add: x)
    next
      case 2
      from Close_effects [OF 2] obtain ctrl where
        "effects (st cf) = effects ?X @
           [ControllableClose ctrl, ConnClose (conn (heap ?X s)), LoaderClose s,
            WorldRemoveEntity (world (heap ?X s)) ctrl,
            ChatPrintln (conn (heap ?X s)) ''has left the game''] @
           (case onStop (heap ?X s) of None \<Rightarrow> [] | Some f \<Rightarrow> [OnStop f ctrl])"
        by blast
      then show ?thesis by (simp add: x split: option.splits)
    qed
  qed
  from d have "(post = [] \<and> crashed cf = None \<and> reader cf = Closing \<and> st cf = ?X)
        \<or> (post = [AClose] \<and> crashed cf = None \<and> reader cf = Closed \<and> Close s ?X = Inr (st cf))
        \<or> (post = [AClose] \<and> (\<exists>p. crashed cf = Some p \<and> Close s ?X = Inl p))"
    using p(3) by auto
  with p n show ?thesis by blast
qed

lemma sendChunks_stop:
  "chunkLoader (heap g s) \<noteq> None \<Longrightarrow>
   sendChunks s (map Tick rs @ CloseChan # es) g = Stopped (emit (TickerStop s) (g\<lparr>effects := effects g @
      concat (map (\<lambda>r. LoaderLoad s 4 # (case r of None \<Rightarrow> [] | Some e \<Rightarrow> [Log ErrorLevel (ChunkError e)])) rs)\<rparr>))"
proof (induction rs arbitrary: g)
  case Nil
  then show ?case by simp
next
  case (Cons r rs)
  let ?g = "g\<lparr>effects := effects g @
      LoaderLoad s 4 # (case r of None \<Rightarrow> [] | Some e \<Rightarrow> [Log ErrorLevel (ChunkError e)])\<rparr>"
  have l: "loadTick s r g = Inr ?g" using Cons.prems by (rule loadTick_Inr)
  have "chunkLoader (heap ?g s) \<noteq> None" using Cons.prems by simp
  from Cons.IH [OF this] l show ?case by simp
qed

text \<open>
  C8, for the \<^verbatim>\<open>Close\<close> that the read loop calls. In every run of the two goroutines,
  \<^verbatim>\<open>Close\<close> is called only after the send on the channel has met the scheduler's receive,
  and no tick follows that joint step. From the joint step on, the calls recorded are the
  send, the stop of the ticker and then those of \<^verbatim>\<open>Close\<close> (the closing of the
  controllable, the connection and the loader, the removal from the world, the chat line,
  the stop callback), in this order and with no load among them; the state after the run
  is the one \<^verbatim>\<open>Close\<close> returns, or the process has ended in the panic of \<^verbatim>\<open>Close\<close>. The
  function \<^verbatim>\<open>sendChunks\<close> returns at the signal, with the ticks before it loaded and nothing
  of what follows looked at; the deferred function of \<^verbatim>\<open>handlePackets\<close> sends before it
  calls \<^verbatim>\<open>Close\<close>.
\<close>

theorem scheduler_stopped_before_Close:
  assumes "exec hs s tr (startConfig s g) = Some cf"
  shows "(\<forall>pre post. tr = pre @ AClose # post \<longrightarrow>
            ARendezvous \<in> set pre \<and> (\<forall>r. ATick r \<notin> set post))
       \<and> (\<forall>pre post. tr = pre @ ARendezvous # post \<longrightarrow>
            (\<forall>r. ATick r \<notin> set post)
            \<and> (\<exists>c1. exec hs s pre (startConfig s g) = Some c1 \<and> reader c1 = Signalling
                 \<and> ((post = [] \<and> crashed cf = None \<and> reader cf = Closing
                        \<and> st cf = emit (TickerStop s) (emit (ChanSend s) (st c1)))
                    \<or> (post = [AClose] \<and> crashed cf = None \<and> reader cf = Closed
                        \<and> Close s (emit (TickerStop s) (emit (ChanSend s) (st c1))) = Inr (st cf))
                    \<or> (post = [AClose]
                        \<and> (\<exists>p. crashed cf = Some p
                              \<and> Close s (emit (TickerStop s) (emit (ChanSend s) (st c1))) = Inl p)))
                 \<and> (\<forall>s' n. LoaderLoad s' n \<notin>
                        set (drop (length (effects (st c1))) (effects (st cf))))))
       \<and> (\<forall>g1 g2. Close s g1 = Inr g2 \<longrightarrow>
            (\<exists>ctrl. c (heap g1 s) = Some ctrl \<and> effects g2 = effects g1 @
               [ControllableClose ctrl, ConnClose (conn (heap g1 s)), LoaderClose s,
                WorldRemoveEntity (world (heap g1 s)) ctrl,
                ChatPrintln (conn (heap g1 s)) ''has left the game''] @
               (case onStop (heap g1 s) of None \<Rightarrow> [] | Some f \<Rightarrow> [OnStop f ctrl])))
       \<and> (\<forall>rs es g1. chunkLoader (heap g1 s) \<noteq> None \<longrightarrow>
            sendChunks s (map Tick rs @ CloseChan # es) g1 =
              Stopped (emit (TickerStop s) (g1\<lparr>effects := effects g1 @
                concat (map (\<lambda>r. LoaderLoad s 4 #
                  (case r of None \<Rightarrow> [] | Some e \<Rightarrow> [Log ErrorLevel (ChunkError e)])) rs)\<rparr>)))
       \<and> (\<forall>g1. deferred s g1 = Close s (emit (ChanSend s) g1))
       \<and> (\<forall>reads g1 x. handlePackets hs s reads g1 = Returned x \<longrightarrow>
            x = deferred s (snd (readLoop hs s reads (emit (GoSendChunks s) g1))))"
proof -
  have b: "ATick r \<notin> set post" if "tr = pre @ ARendezvous # post" for pre post r
    using assms that no_tick_after_rendezvous by blast
  have a: "ARendezvous \<in> set pre \<and> (\<forall>r. ATick r \<notin> set post)"
    if t: "tr = pre @ AClose # post" for pre post
  proof -
    have "reader (startConfig s g) = Reading \<or> reader (startConfig s g) = Signalling"
      by (simp add: startConfig_def)
    with assms t have m: "ARendezvous \<in> set pre" using Close_after_rendezvous by blast
    then obtain p1 p2 where "pre = p1 @ ARendezvous # p2" by (auto simp: in_set_conv_decomp)
    with t have "tr = p1 @ ARendezvous # (p2 @ AClose # post)" by simp
    from b [OF this] have "\<forall>r. ATick r \<notin> set post" by simp
    with m show ?thesis by simp
  qed
  have d: "\<exists>c1. exec hs s pre (startConfig s g) = Some c1 \<and> reader c1 = Signalling
                 \<and> ((post = [] \<and> crashed cf = None \<and> reader cf = Closing
                        \<and> st cf = emit (TickerStop s) (emit (ChanSend s) (st c1)))
                    \<or> (post = [AClose] \<and> crashed cf = None \<and> reader cf = Closed
                        \<and> Close s (emit (TickerStop s) (emit (ChanSend s) (st c1))) = Inr (st cf))
                    \<or> (post = [AClose]
                        \<and> (\<exists>p. crashed cf = Some p
                              \<and> Close s (emit (TickerStop s) (emit (ChanSend s) (st c1))) = Inl p)))
                 \<and> (\<forall>s' n. LoaderLoad s' n \<notin>
                        set (drop (length (effects (st c1))) (effects (st cf))))"
    if "tr = pre @ ARendezvous # post" for pre post
    using assms that signal_then_Close [of hs s pre post "startConfig s g" cf] by simp
  have e: "\<forall>g1 g2. Close s g1 = Inr g2 \<longrightarrow>
            (\<exists>ctrl. c (heap g1 s) = Some ctrl \<and> effects g2 = effects g1 @
               [ControllableClose ctrl, ConnClose (conn (heap g1 s)), LoaderClose s,
                WorldRemoveEntity (world (heap g1 s)) ctrl,
                ChatPrintln (conn (heap g1 s)) ''has left the game''] @
               (case onStop (heap g1 s) of None \<Rightarrow> [] | Some f \<Rightarrow> [OnStop f ctrl]))"
    using Close_effects by blast
  have f: "\<forall>rs es g1. chunkLoader (heap g1 s) \<noteq> None \<longrightarrow>
            sendChunks s (map Tick rs @ CloseChan # es) g1 =
              Stopped (emit (TickerStop s) (g1\<lparr>effects := effects g1 @
                concat (map (\<lambda>r. LoaderLoad s 4 #
                  (case r of None \<Rightarrow> [] | Some e \<Rightarrow> [Log ErrorLevel (ChunkError e)])) rs)\<rparr>))"
    using sendChunks_stop by blast
  have h: "\<forall>g1. deferred s g1 = Close s (emit (ChanSend s) g1)"
    by (simp add: deferred_def)
  have i: "\<forall>reads g1 x. handlePackets hs s reads g1 = Returned x \<longrightarrow>
            x = deferred s (snd (readLoop hs s reads (emit (GoSendChunks s) g1)))"
  proof (intro allI impI)
    fix reads g1 x
    assume "handlePackets hs s reads g1 = Returned x"
    then show "x = deferred s (snd (readLoop hs s reads (emit (GoSendChunks s) g1)))"
      by (cases "readLoop hs s reads (emit (GoSendChunks s) g1)")
        (auto simp: handlePackets_def split: bool.splits)
  qed
  from a b d e f h i show ?thesis by blast
qed

theorem scheduler_stopped_before_Close_witness:
  "(\<exists>cf. exec sampleHandlers 1
        ([ARead (ReadPacket (Text [1])), ATick None, ARead (ReadError ''EOF''),
          ATick (Some ''world closed'')] @ ARendezvous # [AClose]) (startConfig 1 started) = Some cf
       \<and> reader cf = Closed \<and> sched cf = SchedReturned \<and> crashed cf = None
       \<and> effects (st cf) = effects started @
           [GoSendChunks 1, LoaderLoad 1 4, LoaderLoad 1 4,
            Log ErrorLevel (ChunkError ''world closed''), ChanSend 1, TickerStop 1,
            ControllableClose 7, ConnClose (Some 3), LoaderClose 1, WorldRemoveEntity (Some 2) 7,
            ChatPrintln (Some 3) ''has left the game'', OnStop 5 7])
   \<and> exec sampleHandlers 1
        [ARead (ReadError ''EOF''), ARendezvous, ATick None] (startConfig 1 started) = None
   \<and> sendChunks 1 (map Tick [None] @ CloseChan # [Tick None, Tick None]) started =
        Stopped (started\<lparr>effects := effects started @ [LoaderLoad 1 4, TickerStop 1]\<rparr>)"
proof -
  obtain cf where e: "exec sampleHandlers 1
        ([ARead (ReadPacket (Text [1])), ATick None, ARead (ReadError ''EOF''),
          ATick (Some ''world closed'')] @ ARendezvous # [AClose]) (startConfig 1 started) = Some cf"
    and r: "reader cf = Closed \<and> sched cf = SchedReturned \<and> crashed cf = None
       \<and> effects (st cf) = effects started @
           [GoSendChunks 1, LoaderLoad 1 4, LoaderLoad 1 4,
            Log ErrorLevel (ChunkError ''world closed''), ChanSend 1, TickerStop 1,
            ControllableClose 7, ConnClose (Some 3), LoaderClose 1, WorldRemoveEntity (Some 2) 7,
            ChatPrintln (Some 3) ''has left the game'', OnStop 5 7]"
    by (simp add: fire_def readStep_def loadTick_def startConfig_def sampleHandlers_def model_defs)
  have l: "chunkLoader (heap started 1) \<noteq> None" by (simp add: model_defs)
  note t = scheduler_stopped_before_Close [OF e]
  from t l have "sendChunks 1 (map Tick [None] @ CloseChan # [Tick None, Tick None]) started =
        Stopped (emit (TickerStop 1) (started\<lparr>effects := effects started @
                concat (map (\<lambda>r. LoaderLoad 1 4 #
                  (case r of None \<Rightarrow> [] | Some e \<Rightarrow> [Log ErrorLevel (ChunkError e)])) [None])\<rparr>))"
    by blast
  then have s: "sendChunks 1 (map Tick [None] @ CloseChan # [Tick None, Tick None]) started =
        Stopped (started\<lparr>effects := effects started @ [LoaderLoad 1 4, TickerStop 1]\<rparr>)"
    by (simp add: emit_def)
  have n: "exec sampleHandlers 1
        [ARead (ReadError ''EOF''), ARendezvous, ATick None] (startConfig 1 started) = None"
    by (simp add: fire_def readStep_def loadTick_def startConfig_def sampleHandlers_def model_defs)
  from e r s n show ?thesis by blast
qed

text \<open>
  C8 as stated, for any \<^verbatim>\<open>Close\<close>, fails: \<^verbatim>\<open>Close\<close> itself does not stop the scheduler. On
  the example the second session is running (its read loop is blocked in a read) when
  \<^verbatim>\<open>Close\<close> is called on it from outside the read loop; the call returns, having closed the
  loader, and the next tick of the scheduler, which has received no signal, calls
  \<^verbatim>\<open>Load(4)\<close>.
\<close>

theorem outside_Close_then_load:
  "\<not> isl (Close 2 twoStarted)
   \<and> effects (projr (Close 2 twoStarted)) = effects twoStarted @
        [ControllableClose 8, ConnClose (Some 4), LoaderClose 2, WorldRemoveEntity (Some 2) 8,
         ChatPrintln (Some 4) ''has left the game'', OnStop 6 8]
   \<and> sendChunks 2 [Tick None] (projr (Close 2 twoStarted)) =
        Waiting (emit (LoaderLoad 2 4) (projr (Close 2 twoStarted)))
   \<and> handlePackets sampleHandlers 2 [] twoStarted = Blocked (emit (GoSendChunks 2) twoStarted)"
  by (simp add: model_defs twoStarted_def loadTick_def handlePackets_def)


end
